theory Spec2Isabelle
  imports Main "HOL-Library.Word"
begin

unbundle bit_operations_syntax

section \<open>The pseudo-random device of kernel/random.c\<close>

text \<open>
  The driver keeps one byte of generator state behind a spinlock, advances it with an
  8-bit linear feedback shift register on every byte read, and replaces it on a one-byte
  write. The C types \<^verbatim>\<open>uint8\<close> and \<^verbatim>\<open>uint64\<close> are words; the C \<^verbatim>\<open>int\<close> values of
  this file (the length \<^verbatim>\<open>n\<close>, the counter \<^verbatim>\<open>i\<close>, the statuses) stay far from the ends
  of the 32-bit range (the counter never exceeds 8), so they are read as \<^typ>\<open>int\<close>.
\<close>

type_synonym uint8 = "8 word"
type_synonym uint64 = "64 word"

subsection \<open>The shift register\<close>

text \<open>
  \<^verbatim>\<open>bit = ((lfsr >> 0) ^ (lfsr >> 2) ^ (lfsr >> 3) ^ (lfsr >> 4)) & 0x01;\<close>
  \<^verbatim>\<open>lfsr = (lfsr >> 1) | (bit << 7);\<close>
  C promotes both \<^verbatim>\<open>uint8\<close> operands to \<^verbatim>\<open>int\<close> before shifting; the promoted values
  are below 256, so the 32-bit word operations agree with the signed ones. Each
  assignment to a \<^verbatim>\<open>uint8\<close> truncates again.
\<close>

definition lfsr_char :: "uint8 \<Rightarrow> uint8" where
  "lfsr_char lfsr =
     (let bitv = (ucast ((drop_bit 0 (ucast lfsr :: 32 word) XOR drop_bit 2 (ucast lfsr :: 32 word)
                    XOR drop_bit 3 (ucast lfsr :: 32 word) XOR drop_bit 4 (ucast lfsr :: 32 word))
                    AND 0x01) :: uint8)
      in ucast (drop_bit 1 (ucast lfsr :: 32 word) OR push_bit 7 (ucast bitv :: 32 word)))"

text \<open>
  The feedback bit in the words of the specification: the exclusive-or of the bits at
  positions 0, 2, 3 and 4 of the state. It is compared with \<^const>\<open>lfsr_char\<close> below.
\<close>

definition spec_feedback :: "uint8 \<Rightarrow> bool" where
  "spec_feedback s = (((bit s 0 \<noteq> bit s 2) \<noteq> bit s 3) \<noteq> bit s 4)"

subsection \<open>The generator state and its lock\<close>

datatype error = Blocked | Not_held

record spinlock =
  locked :: bool
  name :: string

record rand_t =
  lock :: spinlock
  seed :: uint8

text \<open>
  Modelled from the spec: the mutual-exclusion primitive with its init, acquire and
  release operations (kernel/spinlock.c is not among the sources). In this sequential
  model nobody else releases a held lock, so acquiring a held lock does not return
  (\<^const>\<open>Blocked\<close>), and releasing a free one is an error as well (\<^const>\<open>Not_held\<close>).
\<close>

definition initlock :: "spinlock \<Rightarrow> string \<Rightarrow> spinlock" where
  "initlock lk nm = lk\<lparr>name := nm, locked := False\<rparr>"

definition acquire :: "spinlock \<Rightarrow> error + spinlock" where
  "acquire lk = (if locked lk then Inl Blocked else Inr (lk\<lparr>locked := True\<rparr>))"

definition release :: "spinlock \<Rightarrow> error + spinlock" where
  "release lk = (if locked lk then Inr (lk\<lparr>locked := False\<rparr>) else Inl Not_held)"

subsection \<open>The copy primitives\<close>

text \<open>
  \<^verbatim>\<open>either_copyout(user_dst, dst, src, len)\<close> and \<^verbatim>\<open>either_copyin(dst, user_src, src, len)\<close>
  belong to the surrounding kernel. The driver is modelled for any such pair: they are
  parameters of \<open>randomread\<close> and \<open>randomwrite\<close>. The type \<open>'m\<close> is whatever the
  primitives look at and change outside the driver (page tables, user and kernel memory).
  Both are only ever called with length 1 here.
  \<^item> A copy-out takes the outside world, the flag, the destination address and the byte
    stored at the kernel source, and returns its status and the new outside world.
  \<^item> A copy-in takes the outside world, the flag, the source address and the byte now in
    the kernel destination, and returns its status and the byte in the destination
    afterwards.
\<close>

type_synonym 'm copyout = "'m \<Rightarrow> int \<Rightarrow> uint64 \<Rightarrow> uint8 \<Rightarrow> int \<times> 'm"
type_synonym 'm copyin = "'m \<Rightarrow> int \<Rightarrow> uint64 \<Rightarrow> uint8 \<Rightarrow> int \<times> uint8"

record memory =
  user :: "uint64 \<rightharpoonup> uint8"
  kern :: "uint64 \<rightharpoonup> uint8"

text \<open>
  Modelled from the spec: the checked copy primitive of the kernel (kernel/proc.c is not
  among the sources), "a checked copy-to/copy-from-user primitive that moves bytes between
  kernel memory and a caller-specified address, validating the address and reporting
  failure instead of faulting the kernel", with its two kinds of buffer, the untrusted
  user buffer (flag not 0) and the trusted kernel buffer (flag 0). An address is valid
  when the address space maps it. The failure status is the -1 that \<open>randomread\<close> tests
  for; the success status is the kernel's 0. A failed copy moves nothing.
\<close>

definition either_copyout :: "memory copyout" where
  "either_copyout m user_dst dst b =
     (if user_dst \<noteq> 0
      then (case user m dst of
              None \<Rightarrow> (-1, m)
            | Some old \<Rightarrow> (0, m\<lparr>user := (user m)(dst \<mapsto> b)\<rparr>))
      else (case kern m dst of
              None \<Rightarrow> (-1, m)
            | Some old \<Rightarrow> (0, m\<lparr>kern := (kern m)(dst \<mapsto> b)\<rparr>)))"

definition either_copyin :: "memory copyin" where
  "either_copyin m user_src src old =
     (if user_src \<noteq> 0
      then (case user m src of None \<Rightarrow> (-1, old) | Some b \<Rightarrow> (0, b))
      else (case kern m src of None \<Rightarrow> (-1, old) | Some b \<Rightarrow> (0, b)))"

subsection \<open>Reading\<close>

text \<open>
  The loop of \<^verbatim>\<open>randomread\<close>, from counter \<open>i\<close> on:
  \<^verbatim>\<open>for (i = 0; i < n; i++) { uint8 lfsrRet = lfsr_char(rand.seed); rand.seed = lfsrRet;\<close>
  \<^verbatim>\<open>  if (either_copyout(fd, dst, &rand.seed, 1) == -1) break; }\<close>
  Every copy goes to the address \<open>dst\<close> itself: the source does not add \<open>i\<close> to it.
  The result is the final counter, the final seed and the final outside world.
\<close>

function randomread_loop ::
  "'m copyout \<Rightarrow> int \<Rightarrow> uint64 \<Rightarrow> int \<Rightarrow> int \<Rightarrow> uint8 \<Rightarrow> 'm \<Rightarrow> int \<times> uint8 \<times> 'm" where
  "randomread_loop co fd dst n i sd m =
     (if i < n
      then (let lfsrRet = lfsr_char sd
            in case co m fd dst lfsrRet of
                 (r, m') \<Rightarrow> if r = -1 then (i, lfsrRet, m')
                            else randomread_loop co fd dst n (i + 1) lfsrRet m')
      else (i, sd, m))"
  by pat_completeness auto
termination
  by (relation "measure (\<lambda>(co, fd, dst, n, i, sd, m). nat (n - i))") auto

declare randomread_loop.simps [simp del]

definition randomread ::
  "'m copyout \<Rightarrow> rand_t \<Rightarrow> 'm \<Rightarrow> int \<Rightarrow> uint64 \<Rightarrow> int \<Rightarrow> error + (int \<times> rand_t \<times> 'm)" where
  "randomread co r m fd dst n =
     (case acquire (lock r) of
        Inl e \<Rightarrow> Inl e
      | Inr lk \<Rightarrow>
          (let n' = (if n > 8 then 8 else n)
           in case randomread_loop co fd dst n' 0 (seed r) m of
                (i, sd, m') \<Rightarrow>
                  (case release lk of
                     Inl e \<Rightarrow> Inl e
                   | Inr lk' \<Rightarrow> Inr (i, \<lparr>lock = lk', seed = sd\<rparr>, m'))))"

subsection \<open>Writing\<close>

text \<open>
  \<^verbatim>\<open>if (n != 1) return -1;\<close>
  \<^verbatim>\<open>int ret = 1; acquire(&rand.lock);\<close>
  \<^verbatim>\<open>ret = either_copyin(&rand.seed, src, src, 1); release(&rand.lock); return ret;\<close>
  The flag handed to the copy is \<open>src\<close> converted to \<^verbatim>\<open>int\<close> (its low 32 bits, signed),
  not \<open>fd\<close>; the initial value 1 of \<open>ret\<close> is overwritten by the status of the copy.
\<close>

definition randomwrite ::
  "'m copyin \<Rightarrow> rand_t \<Rightarrow> 'm \<Rightarrow> int \<Rightarrow> uint64 \<Rightarrow> int \<Rightarrow> error + (int \<times> rand_t)" where
  "randomwrite ci r m fd src n =
     (if n \<noteq> 1 then Inr (-1, r)
      else (let ret0 = (1 :: int)
            in case acquire (lock r) of
                 Inl e \<Rightarrow> Inl e
               | Inr lk \<Rightarrow>
                   (case ci m (sint (ucast src :: 32 word)) src (seed r) of
                      (ret, sd) \<Rightarrow>
                        (case release lk of
                           Inl e \<Rightarrow> Inl e
                         | Inr lk' \<Rightarrow> Inr (ret, \<lparr>lock = lk', seed = sd\<rparr>)))))"

subsection \<open>Initialisation\<close>

text \<open>
  The device table \<^verbatim>\<open>devsw\<close> maps a device number to a pair of handlers. A handler is a
  function pointer; the model names the function it points to. The device number
  \<^verbatim>\<open>RANDOM\<close> is defined in a header that is not among the sources: it is a parameter.
\<close>

datatype handler = Fn_randomread | Fn_randomwrite | Fn_other nat

record devsw_t =
  read :: "handler option"
  "write" :: "handler option"

record kernel =
  rand :: rand_t
  devsw :: "nat \<Rightarrow> devsw_t"

definition randominit :: "nat \<Rightarrow> kernel \<Rightarrow> kernel" where
  "randominit RANDOM k =
     (let k1 = k\<lparr>rand := (rand k)\<lparr>lock := initlock (lock (rand k)) ''rand''\<rparr>\<rparr>;
          k2 = k1\<lparr>devsw := (devsw k1)(RANDOM := (devsw k1 RANDOM)\<lparr>read := Some Fn_randomread\<rparr>)\<rparr>;
          k3 = k2\<lparr>devsw := (devsw k2)(RANDOM := (devsw k2 RANDOM)\<lparr>write := Some Fn_randomwrite\<rparr>)\<rparr>
      in k3\<lparr>rand := (rand k3)\<lparr>seed := 0x2A\<rparr>\<rparr>)"

subsection \<open>Runs of copies, for stating what a read did\<close>

text \<open>
  \<open>copies co fd dst k sd m\<close> is the outside world after the first \<open>k\<close> one-byte
  copy-outs of a read that starts with seed \<open>sd\<close> in world \<open>m\<close>: the seed is stepped,
  then the new seed is copied to \<open>dst\<close>, \<open>k\<close> times over. \<open>copy_status co fd dst k sd m\<close>
  is the status of the copy after those \<open>k\<close>, that is, of copy number \<open>k + 1\<close>.
\<close>

fun copies :: "'m copyout \<Rightarrow> int \<Rightarrow> uint64 \<Rightarrow> nat \<Rightarrow> uint8 \<Rightarrow> 'm \<Rightarrow> 'm" where
  "copies co fd dst 0 sd m = m"
| "copies co fd dst (Suc k) sd m =
     copies co fd dst k (lfsr_char sd) (snd (co m fd dst (lfsr_char sd)))"

fun copy_status :: "'m copyout \<Rightarrow> int \<Rightarrow> uint64 \<Rightarrow> nat \<Rightarrow> uint8 \<Rightarrow> 'm \<Rightarrow> int" where
  "copy_status co fd dst 0 sd m = fst (co m fd dst (lfsr_char sd))"
| "copy_status co fd dst (Suc k) sd m =
     copy_status co fd dst k (lfsr_char sd) (snd (co m fd dst (lfsr_char sd)))"

subsection \<open>Concrete states\<close>

text \<open>
  The generator as \<open>randominit\<close> leaves it, the same with the lock held by somebody
  else, and three user address spaces: one mapped byte at address 0, where the text of
  a user program starts, one mapped byte at address 0x1000, and a buffer of two mapped
  bytes at 0x1FFE and 0x1FFF with nothing mapped behind it.
\<close>

definition boot_rand :: rand_t where
  "boot_rand = \<lparr>lock = \<lparr>locked = False, name = ''rand''\<rparr>, seed = 0x2A\<rparr>"

definition held_rand :: rand_t where
  "held_rand = \<lparr>lock = \<lparr>locked = True, name = ''rand''\<rparr>, seed = 0x2A\<rparr>"

definition text_at_zero :: memory where
  "text_at_zero = \<lparr>user = [0 \<mapsto> 0x55], kern = Map.empty\<rparr>"

definition page_at_1000 :: memory where
  "page_at_1000 = \<lparr>user = [0x1000 \<mapsto> 0x55], kern = Map.empty\<rparr>"

definition two_byte_buffer :: memory where
  "two_byte_buffer = \<lparr>user = [0x1FFF \<mapsto> 0, 0x1FFE \<mapsto> 0], kern = Map.empty\<rparr>"

section \<open>Properties of the shift register\<close>

text \<open>
  Claim C1. For every 8-bit state \<open>s\<close>, \<open>lfsr_char s\<close> is \<open>s\<close> shifted right by one bit
  with the feedback bit as the new bit 7, where the feedback bit is the exclusive-or of
  bits 0, 2, 3 and 4 of \<open>s\<close>: the result is that combination, its bit 7 is the feedback
  bit, and its low seven bits are the shifted state.
\<close>

theorem lfsr_char_shift_feedback:
  "lfsr_char s = drop_bit 1 s OR push_bit 7 (of_bool (spec_feedback s))
   \<and> bit (lfsr_char s) 7 = spec_feedback s
   \<and> take_bit 7 (lfsr_char s) = drop_bit 1 s"
proof -
  have whole: "lfsr_char s = drop_bit 1 s OR push_bit 7 (of_bool (spec_feedback s))"
    unfolding lfsr_char_def spec_feedback_def Let_def
    by (rule bit_eqI) (auto simp add: bit_simps dest: bit_imp_le_length)
  have top: "bit (lfsr_char s) 7 = spec_feedback s"
    unfolding lfsr_char_def spec_feedback_def Let_def
    by (auto simp add: bit_simps dest: bit_imp_le_length)
  have low: "take_bit 7 (lfsr_char s) = drop_bit 1 s"
    unfolding lfsr_char_def Let_def
    by (rule bit_eqI) (auto simp add: bit_simps dest: bit_imp_le_length)
  from whole top low show ?thesis by simp
qed

text \<open>
  Claim C9. The all-zero state is a fixed point of the step function, so from seed 0
  every later step yields 0 again.
\<close>

theorem lfsr_char_zero_fixed:
  "lfsr_char 0 = 0 \<and> (lfsr_char ^^ k) 0 = 0"
proof -
  have step: "lfsr_char 0 = 0"
    by (simp add: lfsr_char_def)
  have "(lfsr_char ^^ k) 0 = 0"
    by (induction k) (simp_all add: step)
  with step show ?thesis by simp
qed

section \<open>Properties of the loop and of the lock\<close>

text \<open>How \<^const>\<open>copies\<close> and \<^const>\<open>copy_status\<close> look from the last copy.\<close>

lemma copies_Suc_end:
  "copies co fd dst (Suc k) sd m =
     snd (co (copies co fd dst k sd m) fd dst (lfsr_char ((lfsr_char ^^ k) sd)))"
  by (induction k arbitrary: sd m) (simp_all add: funpow_swap1)

lemma copy_status_end:
  "copy_status co fd dst k sd m =
     fst (co (copies co fd dst k sd m) fd dst (lfsr_char ((lfsr_char ^^ k) sd)))"
  by (induction k arbitrary: sd m) (simp_all add: funpow_swap1)

lemma loop_exit: "\<not> i < n \<Longrightarrow> randomread_loop co fd dst n i sd m = (i, sd, m)"
  by (subst randomread_loop.simps) simp

lemma loop_fail:
  "i < n \<Longrightarrow> copy_status co fd dst 0 sd m = -1 \<Longrightarrow>
   randomread_loop co fd dst n i sd m = (i, lfsr_char sd, copies co fd dst 1 sd m)"
  by (subst randomread_loop.simps, cases "co m fd dst (lfsr_char sd)") (simp add: Let_def)

lemma loop_step:
  "i < n \<Longrightarrow> copy_status co fd dst 0 sd m \<noteq> -1 \<Longrightarrow>
   randomread_loop co fd dst n i sd m =
     randomread_loop co fd dst n (i + 1) (lfsr_char sd) (copies co fd dst 1 sd m)"
  by (subst randomread_loop.simps, cases "co m fd dst (lfsr_char sd)") (simp add: Let_def)

lemma loop_run:
  "int k \<le> n - i \<Longrightarrow> (\<forall>j<k. copy_status co fd dst j sd m \<noteq> -1) \<Longrightarrow>
   randomread_loop co fd dst n i sd m =
     randomread_loop co fd dst n (i + int k) ((lfsr_char ^^ k) sd) (copies co fd dst k sd m)"
proof (induction k arbitrary: i sd m)
  case 0
  then show ?case by simp
next
  case (Suc k)
  from Suc.prems(1) have lt: "i < n" by simp
  from Suc.prems(2) have first: "copy_status co fd dst 0 sd m \<noteq> -1" by blast
  have rest: "\<forall>j<k. copy_status co fd dst j (lfsr_char sd) (copies co fd dst 1 sd m) \<noteq> -1"
  proof (intro allI impI)
    fix j assume "j < k"
    then have "Suc j < Suc k" by simp
    with Suc.prems(2) have "copy_status co fd dst (Suc j) sd m \<noteq> -1" by blast
    then show "copy_status co fd dst j (lfsr_char sd) (copies co fd dst 1 sd m) \<noteq> -1" by simp
  qed
  from Suc.prems(1) have bound: "int k \<le> n - (i + 1)" by simp
  have "randomread_loop co fd dst n i sd m =
          randomread_loop co fd dst n (i + 1) (lfsr_char sd) (copies co fd dst 1 sd m)"
    using lt first by (rule loop_step)
  also have "\<dots> = randomread_loop co fd dst n (i + 1 + int k) ((lfsr_char ^^ k) (lfsr_char sd))
                     (copies co fd dst k (lfsr_char sd) (copies co fd dst 1 sd m))"
    using bound rest by (rule Suc.IH)
  finally show ?case by (simp add: funpow_swap1 add.assoc)
qed

lemma loop_bounded:
  "randomread_loop co fd dst n i sd m = (i', sd', m') \<Longrightarrow>
   i \<le> i' \<and> i' \<le> max i n \<and>
   (\<exists>k. int k \<le> max 0 (n - i) \<and> sd' = (lfsr_char ^^ k) sd \<and> m' = copies co fd dst k sd m)"
proof (induction co fd dst n i sd m arbitrary: i' sd' m' rule: randomread_loop.induct)
  case (1 co fd dst n i sd m)
  show ?case
  proof (cases "i < n")
    case False
    with "1.prems" have "i' = i" "sd' = sd" "m' = m" by (simp_all add: loop_exit)
    then show ?thesis by (auto intro: exI [of _ 0])
  next
    case True
    show ?thesis
    proof (cases "copy_status co fd dst 0 sd m = -1")
      case fail: True
      have "(i', sd', m') = (i, lfsr_char sd, copies co fd dst 1 sd m)"
        using "1.prems" [symmetric] loop_fail [OF True fail] by (rule trans)
      then have "i' = i" and "sd' = lfsr_char sd" and "m' = copies co fd dst 1 sd m"
        by simp_all
      with True show ?thesis by (intro conjI exI [of _ 1]) simp_all
    next
      case ok: False
      obtain r m1 where co: "co m fd dst (lfsr_char sd) = (r, m1)" by (cases "co m fd dst (lfsr_char sd)")
      with ok have r: "r \<noteq> -1" by simp
      from True ok "1.prems" have run: "randomread_loop co fd dst n (i + 1) (lfsr_char sd) m1 = (i', sd', m')"
        using co by (simp add: loop_step)
      from "1.IH" [OF True refl co [symmetric] r run]
      obtain k where k: "i + 1 \<le> i'" "i' \<le> max (i + 1) n" "int k \<le> max 0 (n - (i + 1))"
          "sd' = (lfsr_char ^^ k) (lfsr_char sd)" "m' = copies co fd dst k (lfsr_char sd) m1"
        by blast
      with True co have "int (Suc k) \<le> max 0 (n - i)" "sd' = (lfsr_char ^^ Suc k) sd"
          "m' = copies co fd dst (Suc k) sd m"
        by (simp_all add: funpow_swap1)
      with k True show ?thesis by (intro conjI exI [of _ "Suc k"]) simp_all
    qed
  qed
qed

text \<open>With the lock free, a read is its loop and a write is its copy.\<close>

lemma randomread_unlocked:
  "\<not> locked (lock r) \<Longrightarrow> randomread_loop co fd dst (if n > 8 then 8 else n) 0 (seed r) m = (i, sd, m') \<Longrightarrow>
   randomread co r m fd dst n = Inr (i, r\<lparr>seed := sd\<rparr>, m')"
  by (simp add: randomread_def acquire_def release_def Let_def)

lemma randomread_Inr:
  "randomread co r m fd dst n = Inr (i, r', m') \<Longrightarrow>
   \<not> locked (lock r) \<and> randomread_loop co fd dst (if n > 8 then 8 else n) 0 (seed r) m = (i, seed r', m')"
  by (auto simp add: randomread_def acquire_def release_def Let_def split: if_splits prod.splits)

lemma randomwrite_unlocked:
  "\<not> locked (lock r) \<Longrightarrow>
   randomwrite ci r m fd src 1 =
     Inr (fst (ci m (sint (ucast src :: 32 word)) src (seed r)),
          r\<lparr>seed := snd (ci m (sint (ucast src :: 32 word)) src (seed r))\<rparr>)"
  by (simp add: randomwrite_def acquire_def release_def Let_def split: prod.splits)

lemma randomread_one_byte:
  "\<not> locked (lock r) \<Longrightarrow>
   randomread co r m fd dst 1 =
     Inr (if fst (co m fd dst (lfsr_char (seed r))) = -1 then 0 else 1,
          r\<lparr>seed := lfsr_char (seed r)\<rparr>, snd (co m fd dst (lfsr_char (seed r))))"
proof -
  assume free: "\<not> locked (lock r)"
  have "randomread_loop co fd dst 1 0 (seed r) m =
          (if fst (co m fd dst (lfsr_char (seed r))) = -1 then 0 else 1,
           lfsr_char (seed r), snd (co m fd dst (lfsr_char (seed r))))"
  proof (cases "copy_status co fd dst 0 (seed r) m = -1")
    case True
    then show ?thesis by (simp add: loop_fail)
  next
    case False
    then show ?thesis by (simp add: loop_step loop_exit)
  qed
  then have "randomread_loop co fd dst (if (1 :: int) > 8 then 8 else 1) 0 (seed r) m =
          (if fst (co m fd dst (lfsr_char (seed r))) = -1 then 0 else 1,
           lfsr_char (seed r), snd (co m fd dst (lfsr_char (seed r))))"
    by simp
  from randomread_unlocked [OF free this] show ?thesis .
qed

text \<open>
  The two ways a read can go: its first copy fails, and it returns 0 with the seed
  already stepped once (the seed is stepped before the copy); or every copy it makes
  succeeds, and it returns the clamped length.
\<close>

lemma randomread_first_copy_fails:
  "\<not> locked (lock r) \<Longrightarrow> 1 \<le> n \<Longrightarrow> copy_status co fd dst 0 (seed r) m = -1 \<Longrightarrow>
   randomread co r m fd dst n =
     Inr (0, r\<lparr>seed := lfsr_char (seed r)\<rparr>, copies co fd dst 1 (seed r) m)"
proof -
  assume free: "\<not> locked (lock r)" and n: "1 \<le> n"
    and fails: "copy_status co fd dst 0 (seed r) m = -1"
  from n have "0 < (if n > 8 then 8 else n)" by simp
  from randomread_unlocked [OF free loop_fail [OF this fails]] show ?thesis .
qed

lemma randomread_all_succeed:
  "\<not> locked (lock r) \<Longrightarrow> 0 \<le> n \<Longrightarrow>
   (\<forall>k<nat (min n 8). copy_status co fd dst k (seed r) m \<noteq> -1) \<Longrightarrow>
   randomread co r m fd dst n =
     Inr (min n 8, r\<lparr>seed := (lfsr_char ^^ nat (min n 8)) (seed r)\<rparr>,
          copies co fd dst (nat (min n 8)) (seed r) m)"
proof -
  assume free: "\<not> locked (lock r)" and n: "0 \<le> n"
    and ok: "\<forall>k<nat (min n 8). copy_status co fd dst k (seed r) m \<noteq> -1"
  define n' where "n' = min n 8"
  from n have n': "0 \<le> n'" and clamp: "(if n > 8 then 8 else n) = n'"
    by (simp_all add: n'_def min_def)
  from n' have "int (nat n') \<le> n' - 0" by simp
  from loop_run [OF this ok [folded n'_def]] n'
  have "randomread_loop co fd dst n' 0 (seed r) m =
          randomread_loop co fd dst n' n' ((lfsr_char ^^ nat n') (seed r))
            (copies co fd dst (nat n') (seed r) m)"
    by simp
  also have "\<dots> = (n', (lfsr_char ^^ nat n') (seed r), copies co fd dst (nat n') (seed r) m)"
    by (rule loop_exit) simp
  finally have "randomread_loop co fd dst (if n > 8 then 8 else n) 0 (seed r) m
                  = (n', (lfsr_char ^^ nat n') (seed r), copies co fd dst (nat n') (seed r) m)"
    by (simp only: clamp)
  from randomread_unlocked [OF free this] show ?thesis by (simp only: n'_def)
qed

text \<open>
  The first bytes of the stream from the boot seed, and the modelled copy-out at a mapped
  user address: it succeeds, and it succeeds again at the same address however often it
  is repeated.
\<close>

lemma lfsr_stream:
  "lfsr_char 0x2A = 0x95" "lfsr_char 0x95 = 0xCA" "lfsr_char 0xCA = 0xE5"
  "lfsr_char 0xE5 = 0x72" "lfsr_char 0x72 = 0xB9" "lfsr_char 0xB9 = 0xDC"
  "lfsr_char 0xDC = 0xEE" "lfsr_char 0xEE = 0x77"
  by (simp_all add: lfsr_char_def)

lemma either_copyout_mapped:
  "fd \<noteq> 0 \<Longrightarrow> user m dst = Some old \<Longrightarrow>
   either_copyout m fd dst b = (0, m\<lparr>user := (user m)(dst \<mapsto> b)\<rparr>)"
  by (simp add: either_copyout_def)

lemma either_copyout_same_address:
  "fd \<noteq> 0 \<Longrightarrow> user m dst = Some old \<Longrightarrow> copy_status either_copyout fd dst k sd m = 0"
proof (induction k arbitrary: sd m old)
  case 0
  then show ?case by (simp add: either_copyout_mapped)
next
  case (Suc k)
  have "user (m\<lparr>user := (user m)(dst \<mapsto> lfsr_char sd)\<rparr>) dst = Some (lfsr_char sd)" by simp
  from Suc.IH [OF Suc.prems(1) this] Suc.prems show ?case
    by (simp add: either_copyout_mapped)
qed

text \<open>
  So a read through the modelled copy-out never stops part of the way: if \<open>dst\<close> itself
  is mapped, every copy succeeds and the read returns the clamped length, whatever lies
  behind \<open>dst\<close>.
\<close>

lemma randomread_mapped_dst:
  "\<not> locked (lock r) \<Longrightarrow> 0 \<le> n \<Longrightarrow> fd \<noteq> 0 \<Longrightarrow> user m dst = Some old \<Longrightarrow>
   randomread either_copyout r m fd dst n =
     Inr (min n 8, r\<lparr>seed := (lfsr_char ^^ nat (min n 8)) (seed r)\<rparr>,
          copies either_copyout fd dst (nat (min n 8)) (seed r) m)"
proof -
  assume free: "\<not> locked (lock r)" and n: "0 \<le> n" and fd: "fd \<noteq> 0"
    and mapped: "user m dst = Some old"
  have "\<forall>k<nat (min n 8). copy_status either_copyout fd dst k (seed r) m \<noteq> -1"
    by (simp add: either_copyout_same_address [OF fd mapped])
  with free n show ?thesis by (rule randomread_all_succeed)
qed

section \<open>Properties of reading\<close>

text \<open>
  Claim C4 says that a read into a destination buffer that takes the first two bytes
  and faults on the third returns exactly 2, with the seed stepped exactly 3 times. The
  source hands \<open>dst\<close> itself to every copy, never \<open>dst + i\<close>. On the buffer of two
  mapped bytes at 0x1FFE with nothing mapped behind it, a copy of the third byte to
  \<open>dst + 2\<close> would fail; the read of length 5 instead makes five successful copies to
  \<open>dst\<close>, returns 5 and leaves the seed stepped 5 times, with only the byte at \<open>dst\<close>
  changed.
\<close>

theorem randomread_never_advances_dst:
  "fst (either_copyout two_byte_buffer 1 (0x1FFE + 2) 0xE5) = -1
   \<and> randomread either_copyout boot_rand two_byte_buffer 1 0x1FFE 5
       = Inr (5, boot_rand\<lparr>seed := 0xB9\<rparr>,
              \<lparr>user = [0x1FFF \<mapsto> 0, 0x1FFE \<mapsto> 0xB9], kern = Map.empty\<rparr>)"
proof -
  have free: "\<not> locked (lock boot_rand)" and sd: "seed boot_rand = 0x2A"
    by (simp_all add: boot_rand_def)
  have mapped: "user two_byte_buffer 0x1FFE = Some 0"
    by (simp add: two_byte_buffer_def)
  have third: "fst (either_copyout two_byte_buffer 1 (0x1FFE + 2) 0xE5) = -1"
    by (simp add: either_copyout_def two_byte_buffer_def)
  have world: "copies either_copyout 1 0x1FFE 5 0x2A two_byte_buffer
                 = \<lparr>user = [0x1FFF \<mapsto> 0, 0x1FFE \<mapsto> 0xB9], kern = Map.empty\<rparr>"
    by (simp add: eval_nat_numeral lfsr_stream either_copyout_def two_byte_buffer_def)
  have stream: "(lfsr_char ^^ 5) 0x2A = 0xB9"
    by (simp add: eval_nat_numeral lfsr_stream)
  have "randomread either_copyout boot_rand two_byte_buffer 1 0x1FFE 5
          = Inr (min 5 8, boot_rand\<lparr>seed := (lfsr_char ^^ nat (min 5 8)) (seed boot_rand)\<rparr>,
                 copies either_copyout 1 0x1FFE (nat (min 5 8)) (seed boot_rand) two_byte_buffer)"
    using free _ _ mapped by (rule randomread_mapped_dst) simp_all
  then have "randomread either_copyout boot_rand two_byte_buffer 1 0x1FFE 5
          = Inr (5, boot_rand\<lparr>seed := 0xB9\<rparr>,
                 \<lparr>user = [0x1FFF \<mapsto> 0, 0x1FFE \<mapsto> 0xB9], kern = Map.empty\<rparr>)"
    by (simp add: sd world stream)
  with third show ?thesis by simp
qed

text \<open>
  Claim C5. For every requested length above 8 on which all eight copies succeed, a read
  makes exactly 8 one-byte copies, returns 8 and steps the seed exactly 8 times; and
  whatever the length and the outcome of the copies, a read that returns has returned at
  most 8 after at most 8 copies.
\<close>

theorem randomread_clamps_to_eight:
  "(\<not> locked (lock r) \<and> 8 < n \<and> (\<forall>k<8. copy_status co fd dst k (seed r) m \<noteq> -1)
      \<longrightarrow> randomread co r m fd dst n
            = Inr (8, r\<lparr>seed := (lfsr_char ^^ 8) (seed r)\<rparr>, copies co fd dst 8 (seed r) m))
   \<and> (randomread co r m fd dst n = Inr (i, r', m')
      \<longrightarrow> i \<le> 8 \<and> (\<exists>k\<le>8. seed r' = (lfsr_char ^^ k) (seed r) \<and> m' = copies co fd dst k (seed r) m))"
proof (rule conjI; rule impI)
  assume "\<not> locked (lock r) \<and> 8 < n \<and> (\<forall>k<8. copy_status co fd dst k (seed r) m \<noteq> -1)"
  then have free: "\<not> locked (lock r)" and n: "8 < n"
    and ok: "\<forall>k<8. copy_status co fd dst k (seed r) m \<noteq> -1" by simp_all
  have "int 8 \<le> 8 - 0" by simp
  from loop_run [OF this ok]
  have "randomread_loop co fd dst 8 0 (seed r) m =
          randomread_loop co fd dst 8 8 ((lfsr_char ^^ 8) (seed r)) (copies co fd dst 8 (seed r) m)"
    by simp
  also have "\<dots> = (8, (lfsr_char ^^ 8) (seed r), copies co fd dst 8 (seed r) m)"
    by (rule loop_exit) simp
  finally have "randomread_loop co fd dst (if n > 8 then 8 else n) 0 (seed r) m
                  = (8, (lfsr_char ^^ 8) (seed r), copies co fd dst 8 (seed r) m)"
    using n by simp
  from randomread_unlocked [OF free this]
  show "randomread co r m fd dst n
          = Inr (8, r\<lparr>seed := (lfsr_char ^^ 8) (seed r)\<rparr>, copies co fd dst 8 (seed r) m)" .
next
  assume "randomread co r m fd dst n = Inr (i, r', m')"
  from randomread_Inr [OF this]
  have run: "randomread_loop co fd dst (if n > 8 then 8 else n) 0 (seed r) m = (i, seed r', m')"
    by simp
  from loop_bounded [OF run]
  obtain k where i: "i \<le> max 0 (if n > 8 then 8 else n)"
    and k: "int k \<le> max 0 ((if n > 8 then 8 else n) - 0)"
    and sd: "seed r' = (lfsr_char ^^ k) (seed r)" and m': "m' = copies co fd dst k (seed r) m"
    by blast
  from i have "i \<le> 8" by (simp split: if_splits)
  moreover from k have "k \<le> 8" by (simp split: if_splits)
  ultimately show "i \<le> 8 \<and> (\<exists>k\<le>8. seed r' = (lfsr_char ^^ k) (seed r) \<and> m' = copies co fd dst k (seed r) m)"
    using sd m' by blast
qed

theorem randomread_clamps_to_eight_witness:
  "randomread either_copyout boot_rand page_at_1000 1 0x1000 100
     = Inr (8, boot_rand\<lparr>seed := 0x77\<rparr>, \<lparr>user = [0x1000 \<mapsto> 0x77], kern = Map.empty\<rparr>)
   \<and> (\<exists>k\<le>8. (0x77 :: uint8) = (lfsr_char ^^ k) 0x2A)"
proof -
  have free: "\<not> locked (lock boot_rand)" and sd: "seed boot_rand = 0x2A"
    by (simp_all add: boot_rand_def)
  have mapped: "user page_at_1000 0x1000 = Some 0x55"
    by (simp add: page_at_1000_def)
  have ok: "\<forall>k<8. copy_status either_copyout 1 0x1000 k (seed boot_rand) page_at_1000 \<noteq> -1"
    using either_copyout_same_address [OF _ mapped, of 1] by simp
  have world: "copies either_copyout 1 0x1000 8 0x2A page_at_1000
                 = \<lparr>user = [0x1000 \<mapsto> 0x77], kern = Map.empty\<rparr>"
    by (simp add: eval_nat_numeral lfsr_stream either_copyout_def page_at_1000_def)
  have stream: "(lfsr_char ^^ 8) 0x2A = 0x77"
    by (simp add: eval_nat_numeral lfsr_stream)
  note clamp = randomread_clamps_to_eight [of boot_rand 100 either_copyout 1 "0x1000" page_at_1000 8
      "boot_rand\<lparr>seed := 0x77\<rparr>" "\<lparr>user = [0x1000 \<mapsto> 0x77], kern = Map.empty\<rparr>"]
  from clamp free ok have run: "randomread either_copyout boot_rand page_at_1000 1 0x1000 100
     = Inr (8, boot_rand\<lparr>seed := 0x77\<rparr>, \<lparr>user = [0x1000 \<mapsto> 0x77], kern = Map.empty\<rparr>)"
    by (simp add: sd world stream)
  with clamp have "\<exists>k\<le>8. seed (boot_rand\<lparr>seed := 0x77\<rparr>) = (lfsr_char ^^ k) (seed boot_rand)"
    by blast
  with run show ?thesis by (simp add: sd)
qed

text \<open>
  Claim C10. For every requested length less than or equal to 0, a read returns 0, makes
  no copy (the outside world is unchanged) and leaves the seed unchanged.
\<close>

theorem randomread_nonpositive_length:
  "\<not> locked (lock r) \<Longrightarrow> n \<le> 0 \<Longrightarrow> randomread co r m fd dst n = Inr (0, r, m)"
proof -
  assume free: "\<not> locked (lock r)" and n: "n \<le> 0"
  then have "randomread_loop co fd dst (if n > 8 then 8 else n) 0 (seed r) m = (0, seed r, m)"
    by (simp add: loop_exit)
  from randomread_unlocked [OF free this] show ?thesis by simp
qed

theorem randomread_nonpositive_length_witness:
  "randomread either_copyout boot_rand page_at_1000 1 0x1000 0 = Inr (0, boot_rand, page_at_1000)
   \<and> randomread either_copyout boot_rand page_at_1000 1 0x1000 (-3) = Inr (0, boot_rand, page_at_1000)"
proof -
  have free: "\<not> locked (lock boot_rand)"
    by (simp add: boot_rand_def)
  from randomread_nonpositive_length [OF free, of 0 either_copyout page_at_1000 1 "0x1000"]
       randomread_nonpositive_length [OF free, of "-3" either_copyout page_at_1000 1 "0x1000"]
  show ?thesis by simp
qed

section \<open>Properties of writing\<close>

text \<open>
  Claim C6. For every length other than 1 a write returns -1 and leaves the generator
  state as it was, whatever the source; it does so even while the lock is held, so it
  does not acquire the lock.
\<close>

theorem randomwrite_rejects_length: "n \<noteq> 1 \<Longrightarrow> randomwrite ci r m fd src n = Inr (-1, r)"
  by (simp add: randomwrite_def)

theorem randomwrite_rejects_length_witness:
  "randomwrite either_copyin held_rand page_at_1000 1 0x1000 0 = Inr (-1, held_rand)
   \<and> randomwrite either_copyin held_rand page_at_1000 1 0x1000 2 = Inr (-1, held_rand)
   \<and> randomwrite either_copyin boot_rand page_at_1000 1 0x1000 (-1) = Inr (-1, boot_rand)"
  using randomwrite_rejects_length [of 0 either_copyin held_rand page_at_1000 1 "0x1000"]
        randomwrite_rejects_length [of 2 either_copyin held_rand page_at_1000 1 "0x1000"]
        randomwrite_rejects_length [of "-1" either_copyin boot_rand page_at_1000 1 "0x1000"]
  by simp

text \<open>
  Claim C7. A write of length 1 whose one-byte copy fails returns the failure status of
  the copy primitive and leaves the seed unchanged. The copy is the modelled
  \<^const>\<open>either_copyin\<close>, called as the source calls it.
\<close>

theorem randomwrite_copy_fault_keeps_seed:
  "\<not> locked (lock r) \<Longrightarrow>
   fst (either_copyin m (sint (ucast src :: 32 word)) src (seed r)) = -1 \<Longrightarrow>
   randomwrite either_copyin r m fd src 1 = Inr (-1, r)"
proof -
  assume free: "\<not> locked (lock r)"
    and fails: "fst (either_copyin m (sint (ucast src :: 32 word)) src (seed r)) = -1"
  then have "snd (either_copyin m (sint (ucast src :: 32 word)) src (seed r)) = seed r"
    by (auto simp add: either_copyin_def split: if_splits option.splits)
  with fails show ?thesis
    by (simp add: randomwrite_unlocked [OF free])
qed

theorem randomwrite_copy_fault_keeps_seed_witness:
  "fst (either_copyin page_at_1000 (sint (ucast (0x2000 :: uint64) :: 32 word)) 0x2000 (seed boot_rand)) = -1
   \<and> randomwrite either_copyin boot_rand page_at_1000 1 0x2000 1 = Inr (-1, boot_rand)"
proof -
  have free: "\<not> locked (lock boot_rand)"
    by (simp add: boot_rand_def)
  have fails: "fst (either_copyin page_at_1000 (sint (ucast (0x2000 :: uint64) :: 32 word)) 0x2000 (seed boot_rand)) = -1"
    by (simp add: either_copyin_def page_at_1000_def)
  from randomwrite_copy_fault_keeps_seed [OF free fails] fails show ?thesis by simp
qed

text \<open>
  Claim C3 says that a write of length 1 whose copy succeeds returns a positive count.
  The source returns the status of the copy instead, which is 0 on success: writing the
  mapped user byte 0x55 at address 0x1000 reseeds the generator and returns 0.
\<close>

theorem randomwrite_success_status_zero:
  "randomwrite either_copyin boot_rand page_at_1000 1 0x1000 1 = Inr (0, boot_rand\<lparr>seed := 0x55\<rparr>)"
proof -
  have free: "\<not> locked (lock boot_rand)"
    by (simp add: boot_rand_def)
  have "either_copyin page_at_1000 (sint (ucast (0x1000 :: uint64) :: 32 word)) 0x1000 (seed boot_rand) = (0, 0x55)"
    by (simp add: either_copyin_def page_at_1000_def)
  then show ?thesis by (simp add: randomwrite_unlocked [OF free])
qed

text \<open>
  Claim C2 says that a write of length 1 from a valid source buffer holding \<open>b\<close> sets
  the seed to \<open>b\<close>. The source hands the source address, not \<open>fd\<close>, to the copy as its
  user flag. For the user buffer at address 0 the flag is therefore 0: the copy as the
  caller describes it (flag 1) would deliver 0x55, but the copy the source makes looks at
  kernel address 0, fails, and the seed stays 0x2A.
\<close>

theorem randomwrite_flag_is_source_address:
  "either_copyin text_at_zero 1 0 (seed boot_rand) = (0, 0x55)
   \<and> randomwrite either_copyin boot_rand text_at_zero 1 0 1 = Inr (-1, boot_rand)"
proof -
  have free: "\<not> locked (lock boot_rand)"
    by (simp add: boot_rand_def)
  have caller: "either_copyin text_at_zero 1 0 (seed boot_rand) = (0, 0x55)"
    by (simp add: either_copyin_def text_at_zero_def)
  have code: "either_copyin text_at_zero (sint (ucast (0 :: uint64) :: 32 word)) 0 (seed boot_rand) = (-1, seed boot_rand)"
    by (simp add: either_copyin_def text_at_zero_def)
  from caller code show ?thesis by (simp add: randomwrite_unlocked [OF free])
qed

section \<open>Properties of initialisation\<close>

text \<open>The generator after initialisation is the state \<^const>\<open>boot_rand\<close> used above.\<close>

lemma randominit_rand: "rand (randominit RANDOM k) = boot_rand"
  by (simp add: randominit_def initlock_def boot_rand_def Let_def)

text \<open>
  Claim C8. After \<open>randominit\<close> the seed is exactly 0x2A, the slot \<open>RANDOM\<close> of the
  device table has \<open>randomread\<close> as its read handler and \<open>randomwrite\<close> as its write
  handler, and the lock is initialised and free.
\<close>

theorem randominit_seed_and_handlers:
  "seed (rand (randominit RANDOM k)) = 0x2A
   \<and> read (devsw (randominit RANDOM k) RANDOM) = Some Fn_randomread
   \<and> write (devsw (randominit RANDOM k) RANDOM) = Some Fn_randomwrite
   \<and> lock (rand (randominit RANDOM k)) = \<lparr>locked = False, name = ''rand''\<rparr>"
  by (simp add: randominit_def initlock_def Let_def)

end
